theory Spec2Isabelle
  imports Complex_Main "HOL-Library.Log_Nat"
begin

section \<open>JavaScript numbers\<close>

text \<open>
  Every number of the component (\<open>progress\<close>, \<open>loaded\<close>, \<open>total\<close>, \<open>file.size\<close>) is a
  JavaScript Number: an IEEE 754 binary64 value. A finite value is kept as the rational it
  denotes, \<open>Fin 0\<close> is \<open>+0\<close> and \<open>NZero\<close> is \<open>-0\<close>. Division and multiplication compute the
  exact rational result and round it to the nearest binary64 value, ties to even.
\<close>

datatype jsnum = NaN | PInf | NInf | NZero | Fin rat

definition is_zero :: "jsnum \<Rightarrow> bool" where
  "is_zero x = (x = NZero \<or> x = Fin 0)"

definition is_inf :: "jsnum \<Rightarrow> bool" where
  "is_inf x = (x = PInf \<or> x = NInf)"

fun sign_bit :: "jsnum \<Rightarrow> bool" where
  "sign_bit NInf = True"
| "sign_bit NZero = True"
| "sign_bit (Fin q) = (q < 0)"
| "sign_bit _ = False"

fun val :: "jsnum \<Rightarrow> rat" where
  "val (Fin q) = q"
| "val _ = 0"

definition mk_inf :: "bool \<Rightarrow> jsnum" where
  "mk_inf s = (if s then NInf else PInf)"

definition mk_zero :: "bool \<Rightarrow> jsnum" where
  "mk_zero s = (if s then NZero else Fin 0)"

text \<open>\<open>ilog2 q\<close> is the integer \<open>k\<close> with \<open>2\<^sup>k \<le> q < 2\<^sup>k\<^sup>+\<^sup>1\<close>, for a positive \<open>q\<close>.\<close>

definition ilog2 :: "rat \<Rightarrow> int" where
  "ilog2 q = (let (a, b) = quotient_of q; k = bitlen a - bitlen b
              in if 2 powi k \<le> q then k else k - 1)"

text \<open>
  The exponent of the unit in the last place: 53 significant bits, and the fixed exponent
  \<open>-1074\<close> in the subnormal range.
\<close>

definition ulp_exp :: "rat \<Rightarrow> int" where
  "ulp_exp q = max (ilog2 q - 52) (- 1074)"

definition round_half_even :: "rat \<Rightarrow> int" where
  "round_half_even x =
     (let f = \<lfloor>x\<rfloor>; d = x - of_int f
      in if d < 1 / 2 then f else if 1 / 2 < d then f + 1 else if even f then f else f + 1)"

definition round_mag :: "rat \<Rightarrow> rat" where
  "round_mag a = (let u = 2 powi ulp_exp a in of_int (round_half_even (a / u)) * u)"

definition round_double :: "rat \<Rightarrow> jsnum" where
  "round_double q =
     (let s = q < 0; r = round_mag \<bar>q\<bar>
      in if 2 ^ 1024 \<le> r then mk_inf s
         else if r = 0 then mk_zero s
         else Fin (if s then - r else r))"

text \<open>The operator \<open>/\<close> on Numbers.\<close>

definition js_div :: "jsnum \<Rightarrow> jsnum \<Rightarrow> jsnum" where
  "js_div x y =
     (if x = NaN \<or> y = NaN then NaN
      else if is_inf x then (if is_inf y then NaN else mk_inf (sign_bit x \<noteq> sign_bit y))
      else if is_inf y then mk_zero (sign_bit x \<noteq> sign_bit y)
      else if is_zero y then (if is_zero x then NaN else mk_inf (sign_bit x \<noteq> sign_bit y))
      else if is_zero x then mk_zero (sign_bit x \<noteq> sign_bit y)
      else round_double (val x / val y))"

text \<open>The operator \<open>*\<close> on Numbers.\<close>

definition js_mul :: "jsnum \<Rightarrow> jsnum \<Rightarrow> jsnum" where
  "js_mul x y =
     (if x = NaN \<or> y = NaN then NaN
      else if is_inf x \<or> is_inf y then
        (if is_zero x \<or> is_zero y then NaN else mk_inf (sign_bit x \<noteq> sign_bit y))
      else if is_zero x \<or> is_zero y then mk_zero (sign_bit x \<noteq> sign_bit y)
      else round_double (val x * val y))"

text \<open>
  \<open>Math.round\<close>: the integer closest to the argument, the one closer to \<open>+\<infinity>\<close> in a tie;
  \<open>NaN\<close>, the infinities and the zeros are returned as they are, and a negative argument
  that rounds to zero gives \<open>-0\<close>.
\<close>

fun Math_round :: "jsnum \<Rightarrow> jsnum" where
  "Math_round (Fin q) =
     (let n = \<lfloor>q + 1 / 2\<rfloor> in if n = 0 \<and> q < 0 then NZero else Fin (of_int n))"
| "Math_round x = x"

text \<open>The relational operators \<open><\<close>, \<open>>\<close>, \<open><=\<close> and the strict equality \<open>===\<close> on Numbers.\<close>

fun js_lt :: "jsnum \<Rightarrow> jsnum \<Rightarrow> bool" where
  "js_lt NaN _ = False"
| "js_lt _ NaN = False"
| "js_lt PInf _ = False"
| "js_lt _ PInf = True"
| "js_lt _ NInf = False"
| "js_lt NInf _ = True"
| "js_lt x y = (val x < val y)"

definition js_gt :: "jsnum \<Rightarrow> jsnum \<Rightarrow> bool" where
  "js_gt x y = js_lt y x"

definition js_le :: "jsnum \<Rightarrow> jsnum \<Rightarrow> bool" where
  "js_le x y = (x \<noteq> NaN \<and> y \<noteq> NaN \<and> \<not> js_lt y x)"

definition js_strict_eq :: "jsnum \<Rightarrow> jsnum \<Rightarrow> bool" where
  "js_strict_eq x y = (x \<noteq> NaN \<and> y \<noteq> NaN \<and> (x = y \<or> (is_zero x \<and> is_zero y)))"

text \<open>\<open>Number.isInteger\<close>.\<close>

fun is_integer :: "jsnum \<Rightarrow> bool" where
  "is_integer (Fin q) = (of_int \<lfloor>q\<rfloor> = q)"
| "is_integer NZero = True"
| "is_integer _ = False"

text \<open>The decimal digits of a natural number, as a template literal prints it.\<close>

fun show_nat :: "nat \<Rightarrow> string" where
  "show_nat n =
     (if n < 10 then [''0123456789'' ! n]
      else show_nat (n div 10) @ [''0123456789'' ! (n mod 10)])"

declare show_nat.simps [simp del]


section \<open>The component's data\<close>

text \<open>The prop \<open>type\<close>: \<open>"image" | "video"\<close>; the prop \<open>variant\<close>: \<open>"dark" | "light"\<close>.\<close>

datatype media_kind = ImageKind | VideoKind

datatype variant_kind = Dark | Light

text \<open>The string a \<open>type\<close> prop is at run time.\<close>

fun kind_str :: "media_kind \<Rightarrow> string" where
  "kind_str ImageKind = ''image''"
| "kind_str VideoKind = ''video''"

text \<open>
  \<open>Props\<close>. The callback \<open>onFileChange\<close> is not a field: a call of it is recorded as the
  effect \<open>OnFileChange\<close> below. An absent \<open>value\<close> is \<open>None\<close>.
\<close>

record props =
  type :: media_kind
  accept :: string
  placeholder :: string
  folder :: string
  variant :: variant_kind
  "value" :: "string option"

text \<open>
  The object held by the state variable \<open>file\<close>, and the success payload \<open>res\<close> that
  \<open>setFile(res)\<close> stores there. Only its property \<open>filePath\<close> is ever read; \<open>None\<close> is a
  missing (\<open>undefined\<close>) or \<open>null\<close> property.
\<close>

record file_ref =
  filePath :: "string option"

record component_state =
  "file" :: file_ref
  progress :: jsnum

text \<open>
  The \<open>File\<close> handed to \<open>validateFile\<close>; only its property \<open>size\<close> is read, here
  \<open>file_size\<close>.
\<close>

record File =
  file_size :: jsnum

text \<open>The progress event of the upload; \<open>total_ev\<close> is its property \<open>total\<close>.\<close>

record progress_event =
  loaded :: jsnum
  total_ev :: jsnum

text \<open>A thrown or logged \<open>Error\<close> object, with its \<open>message\<close>.\<close>

datatype js_error = Error (message: string)

record toast_args =
  title :: string
  description :: string
  toast_variant :: "string option"

datatype logged = LText string | LError js_error | LResponse file_ref

text \<open>What a handler does besides updating the state, in the order it does it.\<close>

datatype effect =
    ConsoleLog string logged
  | ConsoleError string logged
  | Toast toast_args
  | OnFileChange string

text \<open>Truthiness of \<open>res.filePath\<close> and \<open>file?.filePath\<close>: a non-empty string.\<close>

fun truthy :: "string option \<Rightarrow> bool" where
  "truthy None = False"
| "truthy (Some s) = (s \<noteq> [])"


section \<open>The authenticator\<close>

datatype json_value =
    JNull
  | JBool bool
  | JNumber jsnum
  | JString string
  | JArray "json_value list"
  | JObject "(string \<times> json_value) list"

text \<open>
  What the awaited calls give: \<open>fetch\<close> rejects with an error or resolves with a
  response; \<open>response.text()\<close> and \<open>response.json()\<close> each reject with an error (\<open>Inl\<close>) or
  resolve with the body, as text or as the parsed value.
\<close>

record response =
  ok :: bool
  status :: nat
  "text" :: "js_error + string"
  json :: "js_error + json_value"

datatype fetch_result = Rejected js_error | Resolved response

text \<open>The object the authenticator returns; \<open>None\<close> is \<open>undefined\<close>.\<close>

record auth_grant =
  token :: "json_value option"
  expire :: "json_value option"
  signature :: "json_value option"

text \<open>
  \<open>const { signature, expire, token } = data\<close>. Destructuring \<open>null\<close> throws a TypeError
  (the message is the engine's; V8's is used here); a property that is not there is
  \<open>undefined\<close>, and a boolean, number, string or array has none of the three.
\<close>

fun destructure :: "json_value \<Rightarrow> js_error + auth_grant" where
  "destructure JNull =
     Inl (Error ''Cannot destructure property 'signature' of 'data' as it is null.'')"
| "destructure (JObject fs) =
     Inr \<lparr>token = map_of fs ''token'', expire = map_of fs ''expire'',
          signature = map_of fs ''signature''\<rparr>"
| "destructure _ = Inr \<lparr>token = None, expire = None, signature = None\<rparr>"

text \<open>The body of the \<open>try\<close> block.\<close>

definition authenticator_try :: "fetch_result \<Rightarrow> effect list \<times> (js_error + auth_grant)" where
  "authenticator_try fr =
     (case fr of
        Rejected e \<Rightarrow> ([], Inl e)
      | Resolved r \<Rightarrow>
          if \<not> ok r then
            (case text r of
               Inl e \<Rightarrow> ([], Inl e)
             | Inr errorText \<Rightarrow>
                 ([ConsoleError ''Authentication error:'' (LText errorText)],
                  Inl (Error (''Request failed with status '' @ show_nat (status r) @ '': ''
                              @ errorText))))
          else
            (case json r of
               Inl e \<Rightarrow> ([], Inl e)
             | Inr data \<Rightarrow> ([], destructure data)))"

text \<open>The whole function: the \<open>catch\<close> block logs the error and throws a new one.\<close>

definition authenticator :: "fetch_result \<Rightarrow> effect list \<times> (js_error + auth_grant)" where
  "authenticator fr =
     (case authenticator_try fr of
        (es, Inr grant) \<Rightarrow> (es, Inr grant)
      | (es, Inl error) \<Rightarrow>
          (es @ [ConsoleError ''Authenticator failed:'' (LError error)],
           Inl (Error (''Authentication request failed: '' @ message error))))"


section \<open>The component\<close>

text \<open>The two \<open>useState\<close> initial values.\<close>

definition mount :: "props \<Rightarrow> component_state" where
  "mount p = \<lparr>file = \<lparr>filePath = value p\<rparr>, progress = Fin 0\<rparr>"

definition onError :: "props \<Rightarrow> js_error \<Rightarrow> component_state \<Rightarrow> component_state \<times> effect list" where
  "onError p error s =
     (s, [ConsoleError ''Upload error:'' (LError error),
          Toast \<lparr>title = kind_str (type p) @ '' upload failed'',
                 description = ''Your '' @ kind_str (type p)
                               @ '' could not be uploaded. Please try again.'',
                 toast_variant = Some ''destructive''\<rparr>])"

definition onSuccess :: "props \<Rightarrow> file_ref \<Rightarrow> component_state \<Rightarrow> component_state \<times> effect list" where
  "onSuccess p res s =
     (let log = ConsoleLog ''Upload success response:'' (LResponse res);
          failed = (let (s', es) = onError p (Error ''No file path returned'') s in (s', log # es))
      in case filePath res of
           None \<Rightarrow> failed
         | Some path \<Rightarrow>
             if path \<noteq> [] then
               (s\<lparr>file := res\<rparr>,
                [log, OnFileChange path,
                 Toast \<lparr>title = kind_str (type p) @ '' uploaded successfully'',
                        description = path @ '' uploaded successfully!'',
                        toast_variant = None\<rparr>])
             else failed)"

definition onValidate :: "props \<Rightarrow> File \<Rightarrow> bool \<times> effect list" where
  "onValidate p f =
     (if type p = ImageKind \<and> js_gt (file_size f) (js_mul (js_mul (Fin 20) (Fin 1024)) (Fin 1024))
      then (False, [Toast \<lparr>title = ''File size too large'',
                           description = ''Please upload a file that is less than 20MB in size'',
                           toast_variant = Some ''destructive''\<rparr>])
      else if type p = VideoKind
              \<and> js_gt (file_size f) (js_mul (js_mul (Fin 50) (Fin 1024)) (Fin 1024))
      then (False, [Toast \<lparr>title = ''File size too large'',
                           description = ''Please upload a file that is less than 50MB in size'',
                           toast_variant = Some ''destructive''\<rparr>])
      else (True, []))"

definition onUploadStart :: "component_state \<Rightarrow> component_state" where
  "onUploadStart s = s\<lparr>progress := Fin 0\<rparr>"

definition onUploadProgress :: "progress_event \<Rightarrow> component_state \<Rightarrow> component_state" where
  "onUploadProgress ev s =
     (let percent = Math_round (js_mul (js_div (loaded ev) (total_ev ev)) (Fin 100))
      in s\<lparr>progress := percent\<rparr>)"

text \<open>The lifecycle events of the upload widget, wired to the handlers as the JSX does.\<close>

datatype event =
    UploadStart
  | UploadProgress progress_event
  | UploadSuccess file_ref
  | UploadError js_error

fun handle :: "props \<Rightarrow> event \<Rightarrow> component_state \<Rightarrow> component_state \<times> effect list" where
  "handle p UploadStart s = (onUploadStart s, [])"
| "handle p (UploadProgress ev) s = (onUploadProgress ev s, [])"
| "handle p (UploadSuccess res) s = onSuccess p res s"
| "handle p (UploadError e) s = onError p e s"

fun run :: "props \<Rightarrow> event list \<Rightarrow> component_state \<Rightarrow> component_state" where
  "run p [] s = s"
| "run p (e # es) s = run p es (fst (handle p e s))"

text \<open>
  What the component renders from its state: the file name inside the button, the progress
  bar with the number it prints, and the preview.
\<close>

datatype preview = IKImage string | IKVideo string

record view =
  filename_text :: "string option"
  progress_bar :: "jsnum option"
  preview_of :: "preview option"

definition FileUpload_view :: "props \<Rightarrow> component_state \<Rightarrow> view" where
  "FileUpload_view p s =
     \<lparr>filename_text = (if truthy (filePath (file s)) then filePath (file s) else None),
      progress_bar =
        (if js_gt (progress s) (Fin 0) \<and> \<not> js_strict_eq (progress s) (Fin 100)
         then Some (progress s) else None),
      preview_of =
        (case filePath (file s) of
           None \<Rightarrow> None
         | Some path \<Rightarrow>
             if path \<noteq> [] \<and> type p = ImageKind then Some (IKImage path)
             else if path \<noteq> [] \<and> type p = VideoKind then Some (IKVideo path)
             else None)\<rparr>"


section \<open>The hand-off to the upload service\<close>

text \<open>
  What the upload service is asked to transfer: the selected file, the triple of the
  authenticator's grant, and the \<open>folder\<close>, \<open>accept\<close> and \<open>useUniqueFileName={true}\<close> props
  of the upload widget.
\<close>

record upload_request =
  req_file :: File
  req_token :: "json_value option"
  req_expire :: "json_value option"
  req_signature :: "json_value option"
  req_folder :: string
  req_accept :: string
  useUniqueFileName :: bool

text \<open>
  Modelled from the spec: the upload widget of the external media SDK, which is not part of
  this repository. It is given the validation callback, and a file that the callback refuses
  is handled locally: the upload never starts. Otherwise the authenticator runs, and it must
  complete or fail before the transfer begins: when it fails there is no transfer attempt,
  and when it returns a grant the transfer is requested with the file and that grant.
\<close>

definition initiate_transfer :: "props \<Rightarrow> File \<Rightarrow> fetch_result \<Rightarrow> upload_request option" where
  "initiate_transfer p f fr =
     (if \<not> fst (onValidate p f) then None
      else case snd (authenticator fr) of
             Inl e \<Rightarrow> None
           | Inr grant \<Rightarrow>
               Some \<lparr>req_file = f, req_token = token grant, req_expire = expire grant,
                     req_signature = signature grant, req_folder = folder p,
                     req_accept = accept p, useUniqueFileName = True\<rparr>)"


section \<open>The vocabulary of the specification\<close>

text \<open>The size ceiling of a media kind: 20 MiB for an image, 50 MiB for a video.\<close>

fun size_ceiling :: "media_kind \<Rightarrow> jsnum" where
  "size_ceiling ImageKind = Fin (20 * 2 ^ 20)"
| "size_ceiling VideoKind = Fin (50 * 2 ^ 20)"

text \<open>An integer in \<open>[0, 100]\<close>.\<close>

definition percent_ok :: "jsnum \<Rightarrow> bool" where
  "percent_ok x = (is_integer x \<and> js_le (Fin 0) x \<and> js_le x (Fin 100))"

text \<open>
  The percentage in exact arithmetic: \<open>round(loaded / total * 100)\<close> on the rationals, a tie
  rounded up as \<open>Math.round\<close> does.
\<close>

definition spec_percent :: "rat \<Rightarrow> rat \<Rightarrow> int" where
  "spec_percent l t = round (l / t * 100)"

text \<open>A progress event with finite numbers, \<open>0 \<le> loaded \<le> total\<close> and \<open>0 < total\<close>.\<close>

fun within_total :: "progress_event \<Rightarrow> bool" where
  "within_total ev =
     (case (loaded ev, total_ev ev) of
        (Fin l, Fin t) \<Rightarrow> 0 \<le> l \<and> l \<le> t \<and> 0 < t
      | _ \<Rightarrow> False)"

fun in_range :: "event \<Rightarrow> bool" where
  "in_range (UploadProgress ev) = within_total ev"
| "in_range _ = True"

text \<open>The arguments of the calls of \<open>onFileChange\<close>, and the notices shown, in order.\<close>

fun file_changes :: "effect list \<Rightarrow> string list" where
  "file_changes [] = []"
| "file_changes (OnFileChange path # es) = path # file_changes es"
| "file_changes (_ # es) = file_changes es"

fun notices :: "effect list \<Rightarrow> toast_args list" where
  "notices [] = []"
| "notices (Toast t # es) = t # notices es"
| "notices (_ # es) = notices es"

text \<open>The errors written to the console, in order.\<close>

fun logged_errors :: "effect list \<Rightarrow> js_error list" where
  "logged_errors [] = []"
| "logged_errors (ConsoleError _ (LError e) # es) = e # logged_errors es"
| "logged_errors (_ # es) = logged_errors es"


section \<open>Rounding to binary64\<close>

lemma bitlen_powi_bounds:
  assumes "0 < a"
  shows "(2::rat) powi (bitlen a - 1) \<le> of_int a" and "of_int a < (2::rat) powi bitlen a"
    and "1 \<le> bitlen a"
proof -
  show l1: "1 \<le> bitlen a"
    using assms bitlen_eq_zero_iff[of a] bitlen_nonneg[of a] by linarith
  have "(2::int) ^ nat (bitlen a - 1) \<le> a" "a < 2 ^ nat (bitlen a)"
    using bitlen_bounds[OF assms] by simp_all
  then have "(of_int ((2::int) ^ nat (bitlen a - 1)) :: rat) \<le> of_int a"
    and "(of_int a :: rat) < of_int (2 ^ nat (bitlen a))"
    by (simp_all only: of_int_le_iff of_int_less_iff)
  then show "(2::rat) powi (bitlen a - 1) \<le> of_int a" and "of_int a < (2::rat) powi bitlen a"
    using l1 by (simp_all add: power_int_def)
qed

lemma ilog2_bounds:
  assumes "0 < q"
  shows "2 powi ilog2 q \<le> q \<and> q < 2 powi (ilog2 q + 1)"
proof -
  obtain a b where ab: "quotient_of q = (a, b)" by (cases "quotient_of q")
  have b: "0 < b" using quotient_of_denom_pos[OF ab] .
  have q: "q = of_int a / of_int b" using quotient_of_div[OF ab] .
  have a: "0 < a" using assms b q by (simp add: zero_less_divide_iff)
  define la lb where "la = bitlen a" and "lb = bitlen b"
  note A = bitlen_powi_bounds[OF a, folded la_def]
  note B = bitlen_powi_bounds[OF b, folded lb_def]
  have bpos: "(0::rat) < of_int b" using b by simp
  have "of_int a < (2::rat) powi la" by (rule A(2))
  also have "\<dots> = 2 powi (la - lb + 1) * 2 powi (lb - 1)"
    by (simp flip: power_int_add)
  also have "\<dots> \<le> 2 powi (la - lb + 1) * of_int b"
    using B(1) by (intro mult_left_mono) simp_all
  finally have up: "q < 2 powi (la - lb + 1)"
    using bpos by (simp add: q pos_divide_less_eq)
  have "2 powi (la - lb - 1) * of_int b < 2 powi (la - lb - 1) * (2::rat) powi lb"
    using B(2) by (intro mult_strict_left_mono) simp_all
  also have "\<dots> = 2 powi (la - 1)"
    by (simp flip: power_int_add)
  also have "\<dots> \<le> of_int a" by (rule A(1))
  finally have lo: "2 powi (la - lb - 1) < q"
    using bpos by (simp add: q pos_less_divide_eq)
  show ?thesis
    using up lo ab by (auto simp: ilog2_def Let_def la_def lb_def not_le less_imp_le)
qed

lemma ilog2_unique:
  assumes "0 < q" "2 powi k \<le> q" "q < 2 powi (k + 1)"
  shows "ilog2 q = k"
proof (rule ccontr)
  assume ne: "ilog2 q \<noteq> k"
  note b = ilog2_bounds[OF assms(1)]
  show False
  proof (cases "ilog2 q < k")
    case True
    then have "(2::rat) powi (ilog2 q + 1) \<le> 2 powi k"
      by (intro power_int_increasing) simp_all
    with b assms show False by linarith
  next
    case False
    with ne have "k + 1 \<le> ilog2 q" by simp
    then have "(2::rat) powi (k + 1) \<le> 2 powi ilog2 q"
      by (intro power_int_increasing) simp_all
    with b assms show False by linarith
  qed
qed

lemma ilog2_mono:
  assumes "0 < q" "q \<le> c"
  shows "ilog2 q \<le> ilog2 c"
proof (rule ccontr)
  assume "\<not> ilog2 q \<le> ilog2 c"
  then have "ilog2 c + 1 \<le> ilog2 q" by simp
  then have "(2::rat) powi (ilog2 c + 1) \<le> 2 powi ilog2 q"
    by (intro power_int_increasing) simp_all
  moreover have "0 < c" using assms by simp
  ultimately show False
    using ilog2_bounds[OF assms(1)] ilog2_bounds[OF \<open>0 < c\<close>] assms(2) by linarith
qed

lemma round_half_even_int [simp]: "round_half_even (of_int n) = n"
  by (simp add: round_half_even_def)

lemma round_half_even_le:
  assumes "x \<le> of_int n"
  shows "round_half_even x \<le> n"
proof (cases "\<lfloor>x\<rfloor> = n")
  case True
  then have "of_int n \<le> x" by (metis of_int_floor_le)
  with assms have "x = of_int n" by simp
  then show ?thesis by simp
next
  case False
  moreover have "\<lfloor>x\<rfloor> \<le> n" using assms by (simp add: floor_le_iff)
  ultimately have "\<lfloor>x\<rfloor> + 1 \<le> n" by simp
  then show ?thesis by (simp add: round_half_even_def Let_def)
qed

lemma round_half_even_ge:
  assumes "of_int n \<le> x"
  shows "n \<le> round_half_even x"
proof -
  have "n \<le> \<lfloor>x\<rfloor>" using assms by (simp add: le_floor_iff)
  then show ?thesis by (simp add: round_half_even_def Let_def)
qed

text \<open>Rounding never crosses a value of the grid: what is at most a representable
  \<open>c\<close> rounds to at most \<open>c\<close>.\<close>

lemma round_mag_le:
  assumes q: "0 < q" "q \<le> c" and c: "c = of_int n * 2 powi ulp_exp c"
  shows "round_mag q \<le> c"
proof -
  define d where "d = ulp_exp c - ulp_exp q"
  have "ilog2 q \<le> ilog2 c" using q by (rule ilog2_mono)
  then have d0: "0 \<le> d" by (simp add: d_def ulp_exp_def)
  have u: "(0::rat) < 2 powi ulp_exp q" by simp
  have "c / 2 powi ulp_exp q = of_int n * 2 powi d"
    by (subst c) (simp add: d_def power_int_diff)
  also have "\<dots> = of_int (n * 2 ^ nat d)"
    using d0 by (simp add: power_int_def)
  finally have ce: "c / 2 powi ulp_exp q = of_int (n * 2 ^ nat d)" .
  have "q / 2 powi ulp_exp q \<le> c / 2 powi ulp_exp q"
    using q(2) u by (simp add: divide_right_mono)
  then have "round_half_even (q / 2 powi ulp_exp q) \<le> n * 2 ^ nat d"
    unfolding ce by (rule round_half_even_le)
  then have "(of_int (round_half_even (q / 2 powi ulp_exp q)) :: rat) \<le> of_int (n * 2 ^ nat d)"
    by (simp only: of_int_le_iff)
  then have "of_int (round_half_even (q / 2 powi ulp_exp q)) * 2 powi ulp_exp q
      \<le> (c / 2 powi ulp_exp q) * 2 powi ulp_exp q"
    unfolding ce using u by (intro mult_right_mono) simp_all
  then show ?thesis by (simp add: round_mag_def Let_def)
qed

lemma round_mag_nonneg:
  assumes "0 \<le> q"
  shows "0 \<le> round_mag q"
proof -
  have "(of_int 0 :: rat) \<le> q / 2 powi ulp_exp q" using assms by simp
  then have "0 \<le> round_half_even (q / 2 powi ulp_exp q)" by (rule round_half_even_ge)
  then show ?thesis by (simp add: round_mag_def Let_def)
qed

lemma round_double_bounded:
  assumes q: "0 < q" "q \<le> c" and c: "c = of_int n * 2 powi ulp_exp c" and fin: "c < 2 ^ 1024"
  shows "\<exists>r. round_double q = Fin r \<and> 0 \<le> r \<and> r \<le> c"
proof -
  have "round_mag q \<le> c" using q c by (rule round_mag_le)
  moreover have "0 \<le> round_mag q" using q by (simp add: round_mag_nonneg)
  ultimately show ?thesis
    using q fin by (auto simp: round_double_def Let_def mk_zero_def)
qed

lemma ulp_exp_1: "ulp_exp 1 = - 52"
  by (simp add: ulp_exp_def ilog2_unique[of 1 0])

lemma ulp_exp_100: "ulp_exp 100 = - 46"
  by (simp add: ulp_exp_def ilog2_unique[of 100 6])

lemma round_double_unit:
  assumes "0 < q" "q \<le> 1"
  shows "\<exists>r. round_double q = Fin r \<and> 0 \<le> r \<and> r \<le> 1"
  by (rule round_double_bounded[OF assms, of "2 ^ 52"]) (simp_all add: ulp_exp_1 power_int_def power_divide)

lemma round_double_percent:
  assumes "0 < q" "q \<le> 100"
  shows "\<exists>r. round_double q = Fin r \<and> 0 \<le> r \<and> r \<le> 100"
  by (rule round_double_bounded[OF assms, of "100 * 2 ^ 46"]) (simp_all add: ulp_exp_100 power_int_def power_divide)


text \<open>A value of the grid below \<open>2\<^sup>1\<^sup>0\<^sup>2\<^sup>4\<close> is rounded to itself.\<close>

lemma round_double_exact:
  assumes "0 < q" and "2 powi k \<le> q" and "q < 2 powi (k + 1)"
    and "q = of_int m * 2 powi (max (k - 52) (- 1074))" and "q < 2 ^ 1024"
  shows "round_double q = Fin q"
proof -
  have e: "ulp_exp q = max (k - 52) (- 1074)"
    using ilog2_unique[OF assms(1-3)] by (simp add: ulp_exp_def)
  have "q / 2 powi ulp_exp q = of_int m"
    by (subst assms(4)) (simp add: e)
  then have "round_mag q = of_int m * 2 powi ulp_exp q"
    by (simp add: round_mag_def Let_def)
  then have "round_mag q = q" using assms(4) e by simp
  then show ?thesis using assms(1,5) by (simp add: round_double_def Let_def)
qed

lemma round_double_1: "round_double 1 = Fin 1"
  by (rule round_double_exact[of _ 0 "2 ^ 52"]) (simp_all add: power_int_def power_divide)

lemma round_double_100: "round_double 100 = Fin 100"
  by (rule round_double_exact[of _ 6 "100 * 2 ^ 46"]) (simp_all add: power_int_def power_divide)

lemma round_double_20480: "round_double 20480 = Fin 20480"
  by (rule round_double_exact[of _ 14 "20480 * 2 ^ 38"]) (simp_all add: power_int_def power_divide)

lemma round_double_20971520: "round_double 20971520 = Fin 20971520"
  by (rule round_double_exact[of _ 24 "20971520 * 2 ^ 28"]) (simp_all add: power_int_def power_divide)

lemma round_double_51200: "round_double 51200 = Fin 51200"
  by (rule round_double_exact[of _ 15 "51200 * 2 ^ 37"]) (simp_all add: power_int_def power_divide)

lemma round_double_52428800: "round_double 52428800 = Fin 52428800"
  by (rule round_double_exact[of _ 25 "52428800 * 2 ^ 27"]) (simp_all add: power_int_def power_divide)

lemma mib20: "js_mul (js_mul (Fin 20) (Fin 1024)) (Fin 1024) = Fin 20971520"
  by (simp add: js_mul_def is_inf_def is_zero_def round_double_20480 round_double_20971520)

lemma mib50: "js_mul (js_mul (Fin 50) (Fin 1024)) (Fin 1024) = Fin 52428800"
  by (simp add: js_mul_def is_inf_def is_zero_def round_double_51200 round_double_52428800)

lemma js_div_unit:
  assumes "0 \<le> l" "l \<le> t" "0 < t"
  shows "\<exists>r. js_div (Fin l) (Fin t) = Fin r \<and> 0 \<le> r \<and> r \<le> 1"
proof (cases "l = 0")
  case True
  with assms show ?thesis by (simp add: js_div_def is_inf_def is_zero_def mk_zero_def)
next
  case False
  with assms have "0 < l / t" "l / t \<le> 1" by simp_all
  from round_double_unit[OF this] False assms show ?thesis
    by (simp add: js_div_def is_inf_def is_zero_def)
qed

lemma js_mul_percent:
  assumes "0 \<le> r" "r \<le> 1"
  shows "\<exists>x. js_mul (Fin r) (Fin 100) = Fin x \<and> 0 \<le> x \<and> x \<le> 100"
proof (cases "r = 0")
  case True
  then show ?thesis by (simp add: js_mul_def is_inf_def is_zero_def mk_zero_def)
next
  case False
  with assms have "0 < r * 100" "r * 100 \<le> 100" by simp_all
  from round_double_percent[OF this] False show ?thesis
    by (simp add: js_mul_def is_inf_def is_zero_def)
qed

lemma Math_round_percent:
  assumes "0 \<le> x" "x \<le> 100"
  shows "\<exists>n. Math_round (Fin x) = Fin (of_int n) \<and> 0 \<le> n \<and> n \<le> 100"
proof -
  have "0 \<le> \<lfloor>x + 1 / 2\<rfloor>" using assms by (simp add: le_floor_iff)
  moreover have "\<lfloor>x + 1 / 2\<rfloor> \<le> 100" using assms by (simp add: floor_le_iff)
  ultimately show ?thesis using assms by (auto simp: Let_def)
qed

lemma percent_in_range:
  assumes "0 \<le> l" "l \<le> t" "0 < t"
  shows "\<exists>n. Math_round (js_mul (js_div (Fin l) (Fin t)) (Fin 100)) = Fin (of_int n)
             \<and> 0 \<le> n \<and> n \<le> 100"
proof -
  obtain r where r: "js_div (Fin l) (Fin t) = Fin r" "0 \<le> r" "r \<le> 1"
    using js_div_unit[OF assms] by blast
  obtain x where x: "js_mul (Fin r) (Fin 100) = Fin x" "0 \<le> x" "x \<le> 100"
    using js_mul_percent[OF r(2,3)] by blast
  show ?thesis using Math_round_percent[OF x(2,3)] by (simp add: r x)
qed

lemma round_double_quarter: "round_double (1 / 4) = Fin (1 / 4)"
  by (rule round_double_exact[of _ "- 2" "2 ^ 52"]) (simp_all add: power_int_def power_divide)

lemma round_double_25: "round_double 25 = Fin 25"
  by (rule round_double_exact[of _ 4 "25 * 2 ^ 48"]) (simp_all add: power_int_def power_divide)

lemma Math_round_int: "Math_round (Fin (of_int n)) = Fin (of_int n)"
proof -
  have "\<lfloor>(of_int n :: rat) + 1 / 2\<rfloor> = n" by linarith
  then show ?thesis by (simp add: Let_def)
qed

lemma Math_round_25: "Math_round (Fin 25) = Fin 25"
  using Math_round_int[of 25] by simp

lemma percent_50_200: "Math_round (js_mul (js_div (Fin 50) (Fin 200)) (Fin 100)) = Fin 25"
  by (simp add: js_mul_def js_div_def is_inf_def is_zero_def round_double_quarter round_double_25
        Math_round_25 del: Math_round.simps)


lemma round_half_even_down:
  assumes "of_int f \<le> x" "x - of_int f < 1 / 2"
  shows "round_half_even x = f"
proof -
  have "\<lfloor>x\<rfloor> = f" using assms by linarith
  then show ?thesis using assms by (simp add: round_half_even_def Let_def)
qed

text \<open>A value that lies less than half a unit above a value of the grid is rounded down to it.\<close>

lemma round_double_down:
  assumes "0 < q" and "2 powi k \<le> q" and "q < 2 powi (k + 1)"
    and "of_int f \<le> q / 2 powi (max (k - 52) (- 1074))"
    and "q / 2 powi (max (k - 52) (- 1074)) - of_int f < 1 / 2"
    and "0 < f" and "of_int f * 2 powi (max (k - 52) (- 1074)) < (2::rat) ^ 1024"
  shows "round_double q = Fin (of_int f * 2 powi (max (k - 52) (- 1074)))"
proof -
  have e: "ulp_exp q = max (k - 52) (- 1074)"
    using ilog2_unique[OF assms(1-3)] by (simp add: ulp_exp_def)
  have "round_mag q = of_int f * 2 powi (max (k - 52) (- 1074))"
    using round_half_even_down[OF assms(4,5)] by (simp add: round_mag_def Let_def e)
  moreover have "(0::rat) < of_int f * 2 powi (max (k - 52) (- 1074))"
    using assms(6) by simp
  ultimately show ?thesis using assms(1,7) by (simp add: round_double_def Let_def mk_zero_def)
qed

text \<open>
  The rounding is that of binary64, not that of the rationals: \<open>29 / 200 * 100\<close> is exactly
  14.5, but the quotient is rounded to the double just below 0.145, the product to the double
  just below 14.5, and the percentage is 14.
\<close>

lemma round_double_29_200:
  "round_double (29 / 200) = Fin (5224175567749775 / 36028797018963968)"
  using round_double_down[of "29 / 200" "- 3" 5224175567749775]
  by (simp add: power_int_def power_divide)

lemma round_double_14_5:
  "round_double (5224175567749775 / 36028797018963968 * 100)
     = Fin (8162774324609023 / 562949953421312)"
  using round_double_down[of "5224175567749775 / 36028797018963968 * 100" 3 8162774324609023]
  by (simp add: power_int_def power_divide)

lemma percent_29_200: "Math_round (js_mul (js_div (Fin 29) (Fin 200)) (Fin 100)) = Fin 14"
proof -
  have "\<lfloor>(8162774324609023 / 562949953421312 :: rat) + 1 / 2\<rfloor> = 14" by linarith
  then have "Math_round (Fin (8162774324609023 / 562949953421312)) = Fin 14"
    by (simp add: Let_def)
  then show ?thesis
    using round_double_14_5
    by (simp add: js_mul_def js_div_def is_inf_def is_zero_def round_double_29_200
          del: Math_round.simps)
qed


text \<open>
  The error of one rounding is at most half a unit in the last place: a relative error of
  \<open>2\<^sup>-\<^sup>5\<^sup>3\<close>, or \<open>2\<^sup>-\<^sup>1\<^sup>0\<^sup>7\<^sup>5\<close> in the subnormal range.
\<close>

lemma round_half_even_err: "\<bar>of_int (round_half_even x) - x\<bar> \<le> 1 / 2"
proof -
  have "of_int \<lfloor>x\<rfloor> \<le> x" "x < of_int \<lfloor>x\<rfloor> + 1" by linarith+
  then show ?thesis by (auto simp: round_half_even_def Let_def abs_le_iff)
qed

lemma round_mag_err: "\<bar>round_mag q - q\<bar> \<le> 2 powi ulp_exp q / 2"
proof -
  define u :: rat where "u = 2 powi ulp_exp q"
  have u: "0 < u" by (simp add: u_def)
  have "round_mag q - q = (of_int (round_half_even (q / u)) - q / u) * u"
    using u by (simp add: round_mag_def Let_def u_def algebra_simps)
  then have "\<bar>round_mag q - q\<bar> = \<bar>of_int (round_half_even (q / u)) - q / u\<bar> * u"
    using u by (simp add: abs_mult)
  also have "\<dots> \<le> 1 / 2 * u"
    using u by (intro mult_right_mono round_half_even_err) simp
  finally show ?thesis by (simp add: u_def)
qed

lemma ulp_le:
  assumes "0 < q"
  shows "2 powi ulp_exp q \<le> q / 2 ^ 52 + 2 powi (- 1074)"
proof (cases "- 1074 \<le> ilog2 q - 52")
  case True
  have "(2::rat) powi (ilog2 q - 52) = 2 powi ilog2 q / 2 ^ 52"
    by (simp add: power_int_diff)
  also have "\<dots> \<le> q / 2 ^ 52"
    using ilog2_bounds[OF assms] by (simp add: divide_right_mono)
  finally show ?thesis using True assms by (simp add: ulp_exp_def max_def add_increasing2)
next
  case False
  then show ?thesis using assms by (simp add: ulp_exp_def max_def)
qed

lemma round_double_err:
  assumes q: "0 < q" "q \<le> c" and c: "c = of_int n * 2 powi ulp_exp c" and fin: "c < 2 ^ 1024"
  shows "\<exists>r. round_double q = Fin r \<and> 0 \<le> r \<and> r \<le> c
             \<and> \<bar>r - q\<bar> \<le> q / 2 ^ 53 + 2 powi (- 1075)"
proof -
  have le: "round_mag q \<le> c" using q c by (rule round_mag_le)
  have ge: "0 \<le> round_mag q" using q by (simp add: round_mag_nonneg)
  have eq: "round_double q = Fin (round_mag q)"
    using q fin le ge by (auto simp: round_double_def Let_def mk_zero_def)
  have "\<bar>round_mag q - q\<bar> \<le> 2 powi ulp_exp q / 2" by (rule round_mag_err)
  also have "\<dots> \<le> (q / 2 ^ 52 + 2 powi (- 1074)) / 2"
    using ulp_le[OF q(1)] by (simp add: divide_right_mono)
  also have "\<dots> = q / 2 ^ 53 + 2 powi (- 1075)"
    using power_int_diff[of "2::rat" "- 1074" 1] by (simp add: add_divide_distrib)
  finally show ?thesis using eq le ge by blast
qed


lemma tiny_le: "(2::rat) powi (- 1075) \<le> 1 / 2 ^ 53"
proof -
  have "(2::rat) powi (- 1075) \<le> 2 powi (- 53)"
    by (intro power_int_increasing) simp_all
  also have "\<dots> = 1 / 2 ^ 53" by (simp add: power_int_def power_divide)
  finally show ?thesis .
qed

lemma js_div_err:
  assumes "0 \<le> l" "l \<le> t" "0 < t"
  shows "\<exists>d. js_div (Fin l) (Fin t) = Fin d \<and> 0 \<le> d \<and> d \<le> 1 \<and> \<bar>d - l / t\<bar> \<le> 1 / 2 ^ 52"
proof (cases "l = 0")
  case True
  with assms show ?thesis by (simp add: js_div_def is_inf_def is_zero_def mk_zero_def)
next
  case False
  with assms have q: "0 < l / t" "l / t \<le> 1" by simp_all
  have "\<exists>r. round_double (l / t) = Fin r \<and> 0 \<le> r \<and> r \<le> 1
             \<and> \<bar>r - l / t\<bar> \<le> (l / t) / 2 ^ 53 + 2 powi (- 1075)"
    by (rule round_double_err[OF q, of "2 ^ 52"]) (simp_all add: ulp_exp_1 power_int_def power_divide)
  then obtain r where r: "round_double (l / t) = Fin r" "0 \<le> r" "r \<le> 1"
      "\<bar>r - l / t\<bar> \<le> (l / t) / 2 ^ 53 + 2 powi (- 1075)" by blast
  have "(l / t) / 2 ^ 53 \<le> 1 / 2 ^ 53" using q(2) by (simp add: divide_right_mono)
  with r(4) tiny_le have "\<bar>r - l / t\<bar> \<le> 1 / 2 ^ 53 + 1 / 2 ^ 53" by linarith
  then have "\<bar>r - l / t\<bar> \<le> 1 / 2 ^ 52" by simp
  with r(1-3) False assms show ?thesis
    by (simp add: js_div_def is_inf_def is_zero_def)
qed

lemma js_mul_err:
  assumes "0 \<le> d" "d \<le> 1"
  shows "\<exists>y. js_mul (Fin d) (Fin 100) = Fin y \<and> 0 \<le> y \<and> y \<le> 100
             \<and> \<bar>y - d * 100\<bar> \<le> 1 / 2 ^ 46"
proof (cases "d = 0")
  case True
  then show ?thesis by (simp add: js_mul_def is_inf_def is_zero_def mk_zero_def)
next
  case False
  with assms have q: "0 < d * 100" "d * 100 \<le> 100" by simp_all
  have "\<exists>r. round_double (d * 100) = Fin r \<and> 0 \<le> r \<and> r \<le> 100
             \<and> \<bar>r - d * 100\<bar> \<le> (d * 100) / 2 ^ 53 + 2 powi (- 1075)"
    by (rule round_double_err[OF q, of "100 * 2 ^ 46"])
       (simp_all add: ulp_exp_100 power_int_def power_divide)
  then obtain r where r: "round_double (d * 100) = Fin r" "0 \<le> r" "r \<le> 100"
      "\<bar>r - d * 100\<bar> \<le> (d * 100) / 2 ^ 53 + 2 powi (- 1075)" by blast
  have "(d * 100) / 2 ^ 53 \<le> 100 / 2 ^ 53" using q(2) by (simp add: divide_right_mono)
  with r(4) tiny_le have "\<bar>r - d * 100\<bar> \<le> 100 / 2 ^ 53 + 1 / 2 ^ 53" by linarith
  then have "\<bar>r - d * 100\<bar> \<le> 1 / 2 ^ 46" by simp
  with r(1-3) False show ?thesis
    by (simp add: js_mul_def is_inf_def is_zero_def)
qed

text \<open>The double that is rounded differs from the exact percentage by less than \<open>2\<^sup>-\<^sup>4\<^sup>4\<close>.\<close>

lemma product_err:
  assumes "0 \<le> l" "l \<le> t" "0 < t"
  shows "\<exists>y. js_mul (js_div (Fin l) (Fin t)) (Fin 100) = Fin y \<and> 0 \<le> y \<and> y \<le> 100
             \<and> \<bar>y - l / t * 100\<bar> \<le> 1 / 2 ^ 44"
proof -
  obtain d where d: "js_div (Fin l) (Fin t) = Fin d" "0 \<le> d" "d \<le> 1"
      "\<bar>d - l / t\<bar> \<le> 1 / 2 ^ 52"
    using js_div_err[OF assms] by blast
  obtain y where y: "js_mul (Fin d) (Fin 100) = Fin y" "0 \<le> y" "y \<le> 100"
      "\<bar>y - d * 100\<bar> \<le> 1 / 2 ^ 46"
    using js_mul_err[OF d(2,3)] by blast
  have "d * 100 - l / t * 100 = (d - l / t) * 100" by (simp add: algebra_simps)
  then have "\<bar>d * 100 - l / t * 100\<bar> = \<bar>d - l / t\<bar> * 100"
    by (simp only: abs_mult)
  also have "\<dots> \<le> 1 / 2 ^ 52 * 100" using d(4) by (intro mult_right_mono) simp_all
  finally have "\<bar>d * 100 - l / t * 100\<bar> \<le> 100 / 2 ^ 52" by simp
  with y(4) have "\<bar>y - l / t * 100\<bar> \<le> 1 / 2 ^ 46 + 100 / 2 ^ 52" by linarith
  then have "\<bar>y - l / t * 100\<bar> \<le> 1 / 2 ^ 44" by simp
  with d(1) y(1-3) show ?thesis by simp
qed

text \<open>\<open>Math.round\<close> of a finite number is the nearest integer, the upper one in a tie.\<close>

lemma Math_round_nearest:
  "is_integer (Math_round (Fin y)) \<and> val (Math_round (Fin y)) = of_int \<lfloor>y + 1 / 2\<rfloor>
   \<and> val (Math_round (Fin y)) - 1 / 2 \<le> y \<and> y < val (Math_round (Fin y)) + 1 / 2"
proof -
  have v: "val (Math_round (Fin y)) = of_int \<lfloor>y + 1 / 2\<rfloor>"
    by (simp add: Let_def)
  have i: "is_integer (Math_round (Fin y))" by (simp add: Let_def)
  have "of_int \<lfloor>y + 1 / 2\<rfloor> \<le> y + 1 / 2" "y + 1 / 2 < of_int \<lfloor>y + 1 / 2\<rfloor> + 1"
    by linarith+
  then have "of_int \<lfloor>y + 1 / 2\<rfloor> - 1 / 2 \<le> y" "y < of_int \<lfloor>y + 1 / 2\<rfloor> + 1 / 2"
    by linarith+
  with i show ?thesis unfolding v by blast
qed

lemma Math_round_nonneg:
  assumes "0 \<le> y"
  shows "Math_round (Fin y) = Fin (of_int \<lfloor>y + 1 / 2\<rfloor>)"
  using assms by (simp add: Let_def)

lemma percent_err:
  assumes "0 \<le> l" "l \<le> t" "0 < t"
  shows "\<exists>n. Math_round (js_mul (js_div (Fin l) (Fin t)) (Fin 100)) = Fin (of_int n)
             \<and> \<bar>of_int n - l / t * 100\<bar> \<le> 1 / 2 + 1 / 2 ^ 44
             \<and> \<lfloor>l / t * 100 + 1 / 2 - 1 / 2 ^ 44\<rfloor> \<le> n
             \<and> n \<le> \<lfloor>l / t * 100 + 1 / 2 + 1 / 2 ^ 44\<rfloor>"
proof -
  obtain y where y: "js_mul (js_div (Fin l) (Fin t)) (Fin 100) = Fin y" "0 \<le> y"
      "\<bar>y - l / t * 100\<bar> \<le> 1 / 2 ^ 44"
    using product_err[OF assms] by blast
  define n where "n = \<lfloor>y + 1 / 2\<rfloor>"
  have m: "Math_round (js_mul (js_div (Fin l) (Fin t)) (Fin 100)) = Fin (of_int n)"
    unfolding y(1) n_def using y(2) by (rule Math_round_nonneg)
  have "of_int n \<le> y + 1 / 2" "y + 1 / 2 < of_int n + 1" unfolding n_def by linarith+
  with y(3) have e: "\<bar>of_int n - l / t * 100\<bar> \<le> 1 / 2 + 1 / 2 ^ 44" by linarith
  have "l / t * 100 + 1 / 2 - 1 / 2 ^ 44 \<le> y + 1 / 2" "y + 1 / 2 \<le> l / t * 100 + 1 / 2 + 1 / 2 ^ 44"
    using y(3) by linarith+
  then have "\<lfloor>l / t * 100 + 1 / 2 - 1 / 2 ^ 44\<rfloor> \<le> n" "n \<le> \<lfloor>l / t * 100 + 1 / 2 + 1 / 2 ^ 44\<rfloor>"
    unfolding n_def by (simp_all add: floor_mono)
  with m e show ?thesis by blast
qed

lemma percent_exact:
  assumes "0 \<le> l" "l \<le> t" "0 < t"
    and "\<lfloor>l / t * 100 + 1 / 2 - 1 / 2 ^ 44\<rfloor> = \<lfloor>l / t * 100 + 1 / 2 + 1 / 2 ^ 44\<rfloor>"
  shows "Math_round (js_mul (js_div (Fin l) (Fin t)) (Fin 100)) = Fin (of_int (spec_percent l t))"
proof -
  obtain n where n: "Math_round (js_mul (js_div (Fin l) (Fin t)) (Fin 100)) = Fin (of_int n)"
      "\<lfloor>l / t * 100 + 1 / 2 - 1 / 2 ^ 44\<rfloor> \<le> n" "n \<le> \<lfloor>l / t * 100 + 1 / 2 + 1 / 2 ^ 44\<rfloor>"
    using percent_err[OF assms(1-3)] by blast
  have "\<lfloor>l / t * 100 + 1 / 2 - 1 / 2 ^ 44\<rfloor> \<le> \<lfloor>l / t * 100 + 1 / 2\<rfloor>"
    "\<lfloor>l / t * 100 + 1 / 2\<rfloor> \<le> \<lfloor>l / t * 100 + 1 / 2 + 1 / 2 ^ 44\<rfloor>"
    by (simp_all add: floor_mono)
  with n(2,3) assms(4) have "n = \<lfloor>l / t * 100 + 1 / 2\<rfloor>" by linarith
  then show ?thesis by (simp add: n(1) spec_percent_def round_def)
qed

lemma round_half_even_up:
  assumes "of_int f \<le> x" "1 / 2 < x - of_int f" "x < of_int f + 1"
  shows "round_half_even x = f + 1"
proof -
  have "\<lfloor>x\<rfloor> = f" using assms by linarith
  then show ?thesis using assms by (simp add: round_half_even_def Let_def)
qed

text \<open>A value that lies more than half a unit above a value of the grid is rounded up.\<close>

lemma round_double_up:
  assumes "0 < q" and "2 powi k \<le> q" and "q < 2 powi (k + 1)"
    and "of_int f \<le> q / 2 powi (max (k - 52) (- 1074))"
    and "1 / 2 < q / 2 powi (max (k - 52) (- 1074)) - of_int f"
    and "q / 2 powi (max (k - 52) (- 1074)) < of_int f + 1"
    and "0 \<le> f" and "of_int (f + 1) * 2 powi (max (k - 52) (- 1074)) < (2::rat) ^ 1024"
  shows "round_double q = Fin (of_int (f + 1) * 2 powi (max (k - 52) (- 1074)))"
proof -
  have e: "ulp_exp q = max (k - 52) (- 1074)"
    using ilog2_unique[OF assms(1-3)] by (simp add: ulp_exp_def)
  have "round_mag q = of_int (f + 1) * 2 powi (max (k - 52) (- 1074))"
    using round_half_even_up[OF assms(4-6)] by (simp add: round_mag_def Let_def e)
  moreover have "(0::rat) < of_int (f + 1) * 2 powi (max (k - 52) (- 1074))"
    using assms(7) by (simp add: zero_less_mult_iff)
  ultimately show ?thesis using assms(1,8) by (simp add: round_double_def Let_def mk_zero_def)
qed

text \<open>
  A tie of the exact percentage can also go up: \<open>1 / 200\<close> is rounded to the double just
  above 0.005, the product is the double 0.5, and the percentage is 1.
\<close>

lemma round_double_1_200:
  "round_double (1 / 200) = Fin (5764607523034235 / 1152921504606846976)"
  using round_double_up[of "1 / 200" "- 8" 5764607523034234]
  by (simp add: power_int_def power_divide)

lemma round_double_half:
  "round_double (5764607523034235 / 1152921504606846976 * 100) = Fin (1 / 2)"
  using round_double_down[of "5764607523034235 / 1152921504606846976 * 100" "- 1" 4503599627370496]
  by (simp add: power_int_def power_divide)

lemma percent_1_200: "Math_round (js_mul (js_div (Fin 1) (Fin 200)) (Fin 100)) = Fin 1"
proof -
  have "Math_round (Fin (1 / 2)) = Fin 1" by (simp add: Let_def)
  then show ?thesis
    using round_double_half
    by (simp add: js_mul_def js_div_def is_inf_def is_zero_def round_double_1_200
          del: Math_round.simps)
qed

lemma spec_percent_29_200: "spec_percent 29 200 = 15"
  by (simp add: spec_percent_def round_def)

lemma spec_percent_50_200: "spec_percent 50 200 = 25"
  by (simp add: spec_percent_def round_def floor_eq_iff)


section \<open>Validation of the selected file\<close>

lemma js_gt_Fin [simp]: "js_gt (Fin a) (Fin b) = (b < a)"
  by (simp add: js_gt_def)

text \<open>The products \<open>20 * 1024 * 1024\<close> and \<open>50 * 1024 * 1024\<close> are exact.\<close>

lemma size_ceiling_code:
  "js_mul (js_mul (Fin 20) (Fin 1024)) (Fin 1024) = size_ceiling ImageKind"
  "js_mul (js_mul (Fin 50) (Fin 1024)) (Fin 1024) = size_ceiling VideoKind"
  by (simp_all add: mib20 mib50)

lemma onValidate_eq:
  "fst (onValidate p f) = (\<not> js_gt (file_size f) (size_ceiling (type p)))"
  by (cases "type p") (simp_all add: onValidate_def size_ceiling_code del: size_ceiling.simps)

lemma js_le_not_gt: "js_le x y \<Longrightarrow> \<not> js_gt x y"
  by (simp add: js_le_def js_gt_def)

text \<open>
  C1. A file whose size is at most the ceiling of the media kind (20 MiB for an image,
  50 MiB for a video) is accepted: \<open>onValidate\<close> returns true, and shows no notice. A file
  whose size is strictly above the ceiling is refused: \<open>onValidate\<close> returns false, and no
  transfer is initiated, whatever the auth endpoint would answer.
\<close>

theorem onValidate_ceiling:
  "(js_le (file_size f) (size_ceiling (type p)) \<longrightarrow> onValidate p f = (True, []))
   \<and> (js_gt (file_size f) (size_ceiling (type p)) \<longrightarrow>
        \<not> fst (onValidate p f) \<and> initiate_transfer p f fr = None)"
proof (intro conjI impI)
  assume "js_le (file_size f) (size_ceiling (type p))"
  then have "fst (onValidate p f)" by (simp add: onValidate_eq js_le_not_gt)
  then show "onValidate p f = (True, [])"
    by (simp add: onValidate_def split: if_splits)
next
  assume "js_gt (file_size f) (size_ceiling (type p))"
  then show "\<not> fst (onValidate p f)" by (simp add: onValidate_eq)
  then show "initiate_transfer p f fr = None" by (simp add: initiate_transfer_def)
qed

theorem onValidate_ceiling_witness:
  "onValidate
     \<lparr>type = ImageKind, accept = ''image/*'', placeholder = ''Upload a cover'',
      folder = ''covers'', variant = Dark, value = None\<rparr>
     \<lparr>file_size = Fin 20971520\<rparr> = (True, [])
   \<and> \<not> fst (onValidate
     \<lparr>type = VideoKind, accept = ''video/*'', placeholder = ''Upload a trailer'',
      folder = ''videos'', variant = Light, value = None\<rparr>
     \<lparr>file_size = Fin 52428801\<rparr>)
   \<and> initiate_transfer
     \<lparr>type = VideoKind, accept = ''video/*'', placeholder = ''Upload a trailer'',
      folder = ''videos'', variant = Light, value = None\<rparr>
     \<lparr>file_size = Fin 52428801\<rparr>
     (Resolved \<lparr>ok = True, status = 200, text = Inr ''{}'',
                 json = Inr (JObject [])\<rparr>) = None"
  using onValidate_ceiling[of "\<lparr>file_size = Fin 20971520\<rparr>"
      "\<lparr>type = ImageKind, accept = ''image/*'', placeholder = ''Upload a cover'',
      folder = ''covers'', variant = Dark, value = None\<rparr>"]
    onValidate_ceiling[of "\<lparr>file_size = Fin 52428801\<rparr>"
      "\<lparr>type = VideoKind, accept = ''video/*'', placeholder = ''Upload a trailer'',
      folder = ''videos'', variant = Light, value = None\<rparr>"
      "(Resolved \<lparr>ok = True, status = 200, text = Inr ''{}'',
                 json = Inr (JObject [])\<rparr>)"]
  by (simp add: js_le_def)


section \<open>The success and error handlers\<close>

lemma onError_state [simp]: "fst (onError p e s) = s"
  by (simp add: onError_def)

lemma onError_effects:
  "file_changes (snd (onError p e s)) = []"
  "notices (snd (onError p e s)) =
     [\<lparr>title = kind_str (type p) @ '' upload failed'',
       description = ''Your '' @ kind_str (type p) @ '' could not be uploaded. Please try again.'',
       toast_variant = Some ''destructive''\<rparr>]"
  "logged_errors (snd (onError p e s)) = [e]"
  by (simp_all add: onError_def)

lemma onSuccess_falsy:
  assumes "\<not> truthy (filePath res)"
  shows "onSuccess p res s =
           (s, ConsoleLog ''Upload success response:'' (LResponse res)
               # snd (onError p (Error ''No file path returned'') s))"
  using assms by (cases "filePath res") (simp_all add: onSuccess_def Let_def onError_def)

lemma onSuccess_truthy:
  assumes "filePath res = Some path" "path \<noteq> []"
  shows "onSuccess p res s =
           (s\<lparr>file := res\<rparr>,
            [ConsoleLog ''Upload success response:'' (LResponse res), OnFileChange path,
             Toast \<lparr>title = kind_str (type p) @ '' uploaded successfully'',
                    description = path @ '' uploaded successfully!'',
                    toast_variant = None\<rparr>])"
  using assms by (simp add: onSuccess_def Let_def)

lemma onSuccess_progress: "progress (fst (onSuccess p res s)) = progress s"
  by (cases "filePath res") (simp_all add: onSuccess_def Let_def onError_def)

text \<open>
  C2. For a success payload whose \<open>filePath\<close> is a non-empty string, \<open>onSuccess\<close> makes that
  path the current remote path and calls \<open>onFileChange\<close> exactly once, with exactly that
  path. For a payload whose \<open>filePath\<close> is missing or empty, it leaves the current remote
  path as it was, does not call \<open>onFileChange\<close>, shows the failure notice of \<open>onError\<close> and
  logs the error "No file path returned".
\<close>

theorem onSuccess_path:
  "(filePath res = Some path \<and> path \<noteq> [] \<longrightarrow>
      filePath (file (fst (onSuccess p res s))) = Some path
      \<and> file_changes (snd (onSuccess p res s)) = [path])
   \<and> (filePath res = None \<or> filePath res = Some [] \<longrightarrow>
      file (fst (onSuccess p res s)) = file s
      \<and> file_changes (snd (onSuccess p res s)) = []
      \<and> notices (snd (onSuccess p res s)) =
          [\<lparr>title = kind_str (type p) @ '' upload failed'',
            description = ''Your '' @ kind_str (type p)
                          @ '' could not be uploaded. Please try again.'',
            toast_variant = Some ''destructive''\<rparr>]
      \<and> logged_errors (snd (onSuccess p res s)) = [Error ''No file path returned''])"
proof (intro conjI impI)
  assume "filePath res = Some path \<and> path \<noteq> []"
  then have eq: "onSuccess p res s =
           (s\<lparr>file := res\<rparr>,
            [ConsoleLog ''Upload success response:'' (LResponse res), OnFileChange path,
             Toast \<lparr>title = kind_str (type p) @ '' uploaded successfully'',
                    description = path @ '' uploaded successfully!'',
                    toast_variant = None\<rparr>])"
    and fp: "filePath res = Some path"
    by (simp_all add: onSuccess_truthy)
  show "filePath (file (fst (onSuccess p res s))) = Some path" by (simp add: eq fp)
  show "file_changes (snd (onSuccess p res s)) = [path]" by (simp add: eq)
next
  assume "filePath res = None \<or> filePath res = Some []"
  then have "\<not> truthy (filePath res)" by auto
  note eq = onSuccess_falsy[OF this, of p s]
  show "file (fst (onSuccess p res s)) = file s" by (simp add: eq)
  show "file_changes (snd (onSuccess p res s)) = []" by (simp add: eq onError_effects)
  show "notices (snd (onSuccess p res s)) =
          [\<lparr>title = kind_str (type p) @ '' upload failed'',
            description = ''Your '' @ kind_str (type p)
                          @ '' could not be uploaded. Please try again.'',
            toast_variant = Some ''destructive''\<rparr>]"
    by (simp add: eq onError_effects)
  show "logged_errors (snd (onSuccess p res s)) = [Error ''No file path returned'']"
    by (simp add: eq onError_effects)
qed

theorem onSuccess_path_witness:
  "filePath (file (fst (onSuccess
      \<lparr>type = ImageKind, accept = ''image/*'', placeholder = ''Upload a cover'',
        folder = ''covers'', variant = Dark, value = None\<rparr>
      \<lparr>filePath = Some ''/img/abc.png''\<rparr>
      \<lparr>file = \<lparr>filePath = None\<rparr>, progress = Fin 100\<rparr>))) = Some ''/img/abc.png''
   \<and> file_changes (snd (onSuccess
      \<lparr>type = ImageKind, accept = ''image/*'', placeholder = ''Upload a cover'',
        folder = ''covers'', variant = Dark, value = None\<rparr>
      \<lparr>filePath = Some ''/img/abc.png''\<rparr>
      \<lparr>file = \<lparr>filePath = None\<rparr>, progress = Fin 100\<rparr>)) = [''/img/abc.png'']
   \<and> file_changes (snd (onSuccess
      \<lparr>type = ImageKind, accept = ''image/*'', placeholder = ''Upload a cover'',
        folder = ''covers'', variant = Dark, value = None\<rparr>
      \<lparr>filePath = Some []\<rparr>
      \<lparr>file = \<lparr>filePath = Some ''/img/old.png''\<rparr>, progress = Fin 100\<rparr>)) = []
   \<and> file (fst (onSuccess
      \<lparr>type = ImageKind, accept = ''image/*'', placeholder = ''Upload a cover'',
        folder = ''covers'', variant = Dark, value = None\<rparr>
      \<lparr>filePath = Some []\<rparr>
      \<lparr>file = \<lparr>filePath = Some ''/img/old.png''\<rparr>, progress = Fin 100\<rparr>))
       = \<lparr>filePath = Some ''/img/old.png''\<rparr>"
  using onSuccess_path[of "\<lparr>filePath = Some ''/img/abc.png''\<rparr>" "''/img/abc.png''"
      "\<lparr>type = ImageKind, accept = ''image/*'', placeholder = ''Upload a cover'',
        folder = ''covers'', variant = Dark, value = None\<rparr>"
      "\<lparr>file = \<lparr>filePath = None\<rparr>, progress = Fin 100\<rparr>"]
    onSuccess_path[of "\<lparr>filePath = Some []\<rparr>" "[]"
      "\<lparr>type = ImageKind, accept = ''image/*'', placeholder = ''Upload a cover'',
        folder = ''covers'', variant = Dark, value = None\<rparr>"
      "\<lparr>file = \<lparr>filePath = Some ''/img/old.png''\<rparr>, progress = Fin 100\<rparr>"]
  by simp

text \<open>
  C7. \<open>onUploadStart\<close> resets \<open>progress\<close> to 0, and completion does not: neither \<open>onSuccess\<close>
  nor \<open>onError\<close> changes \<open>progress\<close>, whatever payload or error it receives.
\<close>

theorem progress_reset_by_start_only:
  "progress (onUploadStart s) = Fin 0
   \<and> progress (fst (onSuccess p res s)) = progress s
   \<and> progress (fst (onError p e s)) = progress s"
  by (simp add: onUploadStart_def onSuccess_progress)

theorem progress_reset_by_start_only_witness:
  "progress (fst (onSuccess
      \<lparr>type = ImageKind, accept = ''image/*'', placeholder = ''Upload a cover'',
        folder = ''covers'', variant = Dark, value = None\<rparr>
      \<lparr>filePath = Some ''/img/abc.png''\<rparr>
      \<lparr>file = \<lparr>filePath = None\<rparr>, progress = Fin 100\<rparr>)) = Fin 100
   \<and> progress (fst (onError
      \<lparr>type = ImageKind, accept = ''image/*'', placeholder = ''Upload a cover'',
        folder = ''covers'', variant = Dark, value = None\<rparr>
      (Error ''Request timed out'')
      \<lparr>file = \<lparr>filePath = None\<rparr>, progress = Fin 40\<rparr>)) = Fin 40
   \<and> progress (onUploadStart \<lparr>file = \<lparr>filePath = None\<rparr>, progress = Fin 100\<rparr>) = Fin 0"
  using progress_reset_by_start_only[of "\<lparr>file = \<lparr>filePath = None\<rparr>, progress = Fin 100\<rparr>"
      "\<lparr>type = ImageKind, accept = ''image/*'', placeholder = ''Upload a cover'',
        folder = ''covers'', variant = Dark, value = None\<rparr>"
      "\<lparr>filePath = Some ''/img/abc.png''\<rparr>"]
    progress_reset_by_start_only[of "\<lparr>file = \<lparr>filePath = None\<rparr>, progress = Fin 40\<rparr>"
      "\<lparr>type = ImageKind, accept = ''image/*'', placeholder = ''Upload a cover'',
        folder = ''covers'', variant = Dark, value = None\<rparr>"
      _ "Error ''Request timed out''"]
  by simp

text \<open>
  C8. For every error argument, \<open>onError\<close> leaves the whole state, and so the current remote
  path, as it was: the file name and the preview that are displayed stay those of the last
  successful upload.
\<close>

theorem onError_keeps_path:
  "fst (onError p e s) = s
   \<and> filePath (file (fst (onError p e s))) = filePath (file s)
   \<and> filename_text (FileUpload_view p (fst (onError p e s))) = filename_text (FileUpload_view p s)
   \<and> preview_of (FileUpload_view p (fst (onError p e s))) = preview_of (FileUpload_view p s)"
  by (simp add: onError_def)

theorem onError_keeps_path_witness:
  "filePath (file (fst (onError
      \<lparr>type = ImageKind, accept = ''image/*'', placeholder = ''Upload a cover'',
        folder = ''covers'', variant = Dark, value = None\<rparr>
      (Error ''Request timed out'')
      \<lparr>file = \<lparr>filePath = Some ''/img/old.png''\<rparr>, progress = Fin 40\<rparr>)))
     = Some ''/img/old.png''"
  using onError_keeps_path[of
      "\<lparr>type = ImageKind, accept = ''image/*'', placeholder = ''Upload a cover'',
        folder = ''covers'', variant = Dark, value = None\<rparr>"
      "Error ''Request timed out''"
      "\<lparr>file = \<lparr>filePath = Some ''/img/old.png''\<rparr>, progress = Fin 40\<rparr>"]
  by simp


section \<open>Authentication\<close>

lemma authenticator_Rejected:
  "authenticator (Rejected e) =
     ([ConsoleError ''Authenticator failed:'' (LError e)],
      Inl (Error (''Authentication request failed: '' @ message e)))"
  by (simp add: authenticator_def authenticator_try_def)

lemma authenticator_not_ok:
  assumes "\<not> ok r" "text r = Inr body"
  shows "authenticator (Resolved r) =
     ([ConsoleError ''Authentication error:'' (LText body),
       ConsoleError ''Authenticator failed:''
         (LError (Error (''Request failed with status '' @ show_nat (status r) @ '': '' @ body)))],
      Inl (Error (''Authentication request failed: Request failed with status ''
                  @ show_nat (status r) @ '': '' @ body)))"
  using assms by (simp add: authenticator_def authenticator_try_def)

lemma authenticator_not_ok_fails:
  assumes "\<not> ok r"
  shows "\<exists>e. snd (authenticator (Resolved r)) = Inl e"
  using assms by (cases "text r") (simp_all add: authenticator_def authenticator_try_def)

lemma initiate_transfer_auth_failed:
  assumes "snd (authenticator fr) = Inl e"
  shows "initiate_transfer p f fr = None"
  using assms by (simp add: initiate_transfer_def)

lemma show_nat_500: "show_nat 500 = ''500''"
  by (simp add: show_nat.simps)

text \<open>
  C3. When the auth endpoint answers with a non-success status and the body \<open>body\<close>, the
  authenticator fails with the error "Authentication request failed: Request failed with
  status <status>: <body>", whose message ends with the body, and logs the error it caught.
  When the fetch itself fails, the authenticator fails with "Authentication request failed: "
  followed by the message of the underlying failure. In both cases, and also when the body
  of a non-success answer cannot be read, no transfer is attempted.
\<close>

theorem authenticator_failure:
  "(\<not> ok r \<and> text r = Inr body \<longrightarrow>
      snd (authenticator (Resolved r)) =
        Inl (Error (''Authentication request failed: Request failed with status ''
                    @ show_nat (status r) @ '': '' @ body))
      \<and> logged_errors (fst (authenticator (Resolved r))) =
          [Error (''Request failed with status '' @ show_nat (status r) @ '': '' @ body)])
   \<and> (\<not> ok r \<longrightarrow> initiate_transfer p f (Resolved r) = None)
   \<and> snd (authenticator (Rejected e)) =
        Inl (Error (''Authentication request failed: '' @ message e))
   \<and> logged_errors (fst (authenticator (Rejected e))) = [e]
   \<and> initiate_transfer p f (Rejected e) = None"
proof (intro conjI impI)
  assume a: "\<not> ok r \<and> text r = Inr body"
  then show "snd (authenticator (Resolved r)) =
        Inl (Error (''Authentication request failed: Request failed with status ''
                    @ show_nat (status r) @ '': '' @ body))"
    by (simp add: authenticator_not_ok)
  from a show "logged_errors (fst (authenticator (Resolved r))) =
          [Error (''Request failed with status '' @ show_nat (status r) @ '': '' @ body)]"
    by (simp add: authenticator_not_ok)
next
  assume "\<not> ok r"
  then obtain e' where "snd (authenticator (Resolved r)) = Inl e'"
    using authenticator_not_ok_fails by blast
  then show "initiate_transfer p f (Resolved r) = None"
    by (rule initiate_transfer_auth_failed)
next
  show "snd (authenticator (Rejected e)) =
        Inl (Error (''Authentication request failed: '' @ message e))"
    by (simp add: authenticator_Rejected)
  show "logged_errors (fst (authenticator (Rejected e))) = [e]"
    by (simp add: authenticator_Rejected)
  show "initiate_transfer p f (Rejected e) = None"
    by (simp add: initiate_transfer_auth_failed authenticator_Rejected)
qed

theorem authenticator_failure_witness:
  "snd (authenticator (Resolved \<lparr>ok = False, status = 500, text = Inr ''server error'',
                                  json = Inl (Error ''Unexpected token s in JSON at position 0'')\<rparr>))
     = Inl (Error ''Authentication request failed: Request failed with status 500: server error'')
   \<and> initiate_transfer
        \<lparr>type = ImageKind, accept = ''image/*'', placeholder = ''Upload a cover'',
          folder = ''covers'', variant = Dark, value = None\<rparr>
        \<lparr>file_size = Fin 1024\<rparr>
        (Resolved \<lparr>ok = False, status = 500, text = Inr ''server error'',
                   json = Inl (Error ''Unexpected token s in JSON at position 0'')\<rparr>) = None
   \<and> snd (authenticator (Rejected (Error ''Failed to fetch'')))
     = Inl (Error ''Authentication request failed: Failed to fetch'')"
  using authenticator_failure[of
      "\<lparr>ok = False, status = 500, text = Inr ''server error'',
        json = Inl (Error ''Unexpected token s in JSON at position 0'')\<rparr>"
      "''server error''"
      "\<lparr>type = ImageKind, accept = ''image/*'', placeholder = ''Upload a cover'',
          folder = ''covers'', variant = Dark, value = None\<rparr>"
      "\<lparr>file_size = Fin 1024\<rparr>"
      "Error ''Failed to fetch''"]
  by (simp add: show_nat_500)

text \<open>
  C5. When the fetch succeeds and the JSON body is an object with the properties
  \<open>signature\<close>, \<open>expire\<close> and \<open>token\<close>, the authenticator returns exactly these three values,
  unchanged, and logs nothing; the transfer of a file that passes validation is then
  initiated with exactly that triple.
\<close>

theorem authenticator_grant:
  "ok r \<and> json r = Inr (JObject fs) \<and> map_of fs ''signature'' = Some sg
     \<and> map_of fs ''expire'' = Some ex \<and> map_of fs ''token'' = Some tk \<longrightarrow>
   authenticator (Resolved r) = ([], Inr \<lparr>token = Some tk, expire = Some ex, signature = Some sg\<rparr>)
   \<and> (fst (onValidate p f) \<longrightarrow>
        initiate_transfer p f (Resolved r) =
          Some \<lparr>req_file = f, req_token = Some tk, req_expire = Some ex,
                req_signature = Some sg, req_folder = folder p, req_accept = accept p,
                useUniqueFileName = True\<rparr>)"
  by (simp add: authenticator_def authenticator_try_def initiate_transfer_def)

theorem authenticator_grant_witness:
  "initiate_transfer
        \<lparr>type = ImageKind, accept = ''image/*'', placeholder = ''Upload a cover'',
          folder = ''covers'', variant = Dark, value = None\<rparr>
        \<lparr>file_size = Fin 1024\<rparr>
        (Resolved \<lparr>ok = True, status = 200,
                   text = Inr ''{\"token\":\"t\",\"expire\":123,\"signature\":\"s\"}'',
                   json = Inr (JObject [(''token'', JString ''t''), (''expire'', JNumber (Fin 123)),
                                        (''signature'', JString ''s'')])\<rparr>)
     = Some \<lparr>req_file = \<lparr>file_size = Fin 1024\<rparr>, req_token = Some (JString ''t''),
             req_expire = Some (JNumber (Fin 123)), req_signature = Some (JString ''s''),
             req_folder = ''covers'', req_accept = ''image/*'', useUniqueFileName = True\<rparr>"
  using authenticator_grant[of
      "\<lparr>ok = True, status = 200,
        text = Inr ''{\"token\":\"t\",\"expire\":123,\"signature\":\"s\"}'',
        json = Inr (JObject [(''token'', JString ''t''), (''expire'', JNumber (Fin 123)),
                             (''signature'', JString ''s'')])\<rparr>"
      "[(''token'', JString ''t''), (''expire'', JNumber (Fin 123)), (''signature'', JString ''s'')]"
      "JString ''s''" "JNumber (Fin 123)" "JString ''t''"
      "\<lparr>type = ImageKind, accept = ''image/*'', placeholder = ''Upload a cover'',
          folder = ''covers'', variant = Dark, value = None\<rparr>"
      "\<lparr>file_size = Fin 1024\<rparr>"]
  by (simp add: onValidate_def js_gt_def mib20 mib50)



section \<open>Progress\<close>

text \<open>
  C4, as stated, fails when \<open>round\<close> is taken of the exact quotient: the progress event
  \<open>loaded = 29\<close>, \<open>total = 200\<close> has the exact percentage 14.5, which rounds to 15, and the
  handler stores 14.
\<close>

theorem onUploadProgress_percent_counterexample:
  "progress (onUploadProgress \<lparr>loaded = Fin 29, total_ev = Fin 200\<rparr>
      \<lparr>file = \<lparr>filePath = None\<rparr>, progress = Fin 0\<rparr>) = Fin 14
   \<and> spec_percent 29 200 = 15
   \<and> progress (onUploadProgress \<lparr>loaded = Fin 29, total_ev = Fin 200\<rparr>
      \<lparr>file = \<lparr>filePath = None\<rparr>, progress = Fin 0\<rparr>) \<noteq> Fin (of_int (spec_percent 29 200))"
  by (simp add: onUploadProgress_def Let_def percent_29_200 spec_percent_29_200
        del: Math_round.simps)

text \<open>
  C4, amended. For every progress event, \<open>onUploadProgress\<close> stores \<open>Math.round\<close> of the
  binary64 value of \<open>(loaded / total) * 100\<close> in \<open>progress\<close> and leaves the rest of the state as
  it was. When that product is finite, the stored value is an integer, the nearest to the
  product, the upper one in a tie. For finite numbers with \<open>0 \<le> loaded \<le> total\<close> and
  \<open>0 < total\<close> it differs from the exact percentage \<open>100 * loaded / total\<close> by at most
  \<open>1/2 + 2\<^sup>-\<^sup>4\<^sup>4\<close>, and it is the exact \<open>round(loaded / total * 100)\<close> whenever the exact
  percentage is not within \<open>2\<^sup>-\<^sup>4\<^sup>4\<close> of a tie. The event \<open>loaded = 50\<close>, \<open>total = 200\<close>
  stores 25.
\<close>

theorem onUploadProgress_percent:
  "progress (onUploadProgress ev s)
     = Math_round (js_mul (js_div (loaded ev) (total_ev ev)) (Fin 100))
   \<and> file (onUploadProgress ev s) = file s
   \<and> (js_mul (js_div (loaded ev) (total_ev ev)) (Fin 100) = Fin y \<longrightarrow>
        is_integer (progress (onUploadProgress ev s))
        \<and> val (progress (onUploadProgress ev s)) - 1 / 2 \<le> y
        \<and> y < val (progress (onUploadProgress ev s)) + 1 / 2)
   \<and> (loaded ev = Fin l \<and> total_ev ev = Fin t \<and> 0 \<le> l \<and> l \<le> t \<and> 0 < t \<longrightarrow>
        (\<exists>n. progress (onUploadProgress ev s) = Fin (of_int n)
             \<and> \<bar>of_int n - l / t * 100\<bar> \<le> 1 / 2 + 1 / 2 ^ 44)
        \<and> (\<lfloor>l / t * 100 + 1 / 2 - 1 / 2 ^ 44\<rfloor> = \<lfloor>l / t * 100 + 1 / 2 + 1 / 2 ^ 44\<rfloor> \<longrightarrow>
             progress (onUploadProgress ev s) = Fin (of_int (spec_percent l t))))
   \<and> progress (onUploadProgress \<lparr>loaded = Fin 50, total_ev = Fin 200\<rparr> s) = Fin 25"
proof -
  have stored: "progress (onUploadProgress ev s)
      = Math_round (js_mul (js_div (loaded ev) (total_ev ev)) (Fin 100))" for ev
    by (simp add: onUploadProgress_def Let_def del: Math_round.simps)
  have frame: "file (onUploadProgress ev s) = file s"
    by (simp add: onUploadProgress_def Let_def del: Math_round.simps)
  have nearest: "is_integer (progress (onUploadProgress ev s))
        \<and> val (progress (onUploadProgress ev s)) - 1 / 2 \<le> y
        \<and> y < val (progress (onUploadProgress ev s)) + 1 / 2"
    if "js_mul (js_div (loaded ev) (total_ev ev)) (Fin 100) = Fin y"
    using Math_round_nearest[of y] by (simp add: stored that del: Math_round.simps)
  have close: "\<exists>n. progress (onUploadProgress ev s) = Fin (of_int n)
             \<and> \<bar>of_int n - l / t * 100\<bar> \<le> 1 / 2 + 1 / 2 ^ 44"
    if "loaded ev = Fin l \<and> total_ev ev = Fin t \<and> 0 \<le> l \<and> l \<le> t \<and> 0 < t"
    using percent_err[of l t] that by (auto simp add: stored simp del: Math_round.simps)
  have exact: "progress (onUploadProgress ev s) = Fin (of_int (spec_percent l t))"
    if "loaded ev = Fin l \<and> total_ev ev = Fin t \<and> 0 \<le> l \<and> l \<le> t \<and> 0 < t"
      and "\<lfloor>l / t * 100 + 1 / 2 - 1 / 2 ^ 44\<rfloor> = \<lfloor>l / t * 100 + 1 / 2 + 1 / 2 ^ 44\<rfloor>"
    using percent_exact[of l t] that by (simp add: stored del: Math_round.simps)
  have quarter: "progress (onUploadProgress \<lparr>loaded = Fin 50, total_ev = Fin 200\<rparr> s) = Fin 25"
    by (simp add: stored percent_50_200 del: Math_round.simps)
  from stored frame nearest close exact quarter show ?thesis by blast
qed

theorem onUploadProgress_percent_witness:
  "progress (onUploadProgress \<lparr>loaded = Fin 50, total_ev = Fin 200\<rparr>
      \<lparr>file = \<lparr>filePath = None\<rparr>, progress = Fin 0\<rparr>) = Fin (of_int (spec_percent 50 200))
   \<and> spec_percent 50 200 = 25
   \<and> is_integer (progress (onUploadProgress \<lparr>loaded = Fin 50, total_ev = Fin 200\<rparr>
      \<lparr>file = \<lparr>filePath = None\<rparr>, progress = Fin 0\<rparr>))"
proof -
  let ?ev = "\<lparr>loaded = Fin 50, total_ev = Fin 200\<rparr>"
  let ?s = "\<lparr>file = \<lparr>filePath = None\<rparr>, progress = Fin 0\<rparr>"
  have range: "loaded ?ev = Fin 50 \<and> total_ev ?ev = Fin 200
      \<and> (0::rat) \<le> 50 \<and> (50::rat) \<le> 200 \<and> (0::rat) < 200"
    by simp
  have product: "js_mul (js_div (loaded ?ev) (total_ev ?ev)) (Fin 100) = Fin 25"
    by (simp add: js_mul_def js_div_def is_inf_def is_zero_def round_double_quarter
          round_double_25)
  have "\<lfloor>(50::rat) / 200 * 100 + 1 / 2 - 1 / 2 ^ 44\<rfloor> = 25"
    "\<lfloor>(50::rat) / 200 * 100 + 1 / 2 + 1 / 2 ^ 44\<rfloor> = 25"
    by (simp_all add: floor_eq_iff)
  then have floors: "\<lfloor>(50::rat) / 200 * 100 + 1 / 2 - 1 / 2 ^ 44\<rfloor>
      = \<lfloor>(50::rat) / 200 * 100 + 1 / 2 + 1 / 2 ^ 44\<rfloor>"
    by simp
  note at_quarter = onUploadProgress_percent[of ?ev ?s 25 50 200]
  from at_quarter range floors
  have "progress (onUploadProgress ?ev ?s) = Fin (of_int (spec_percent 50 200))"
    by blast
  moreover from at_quarter product
  have "is_integer (progress (onUploadProgress ?ev ?s))"
    by blast
  ultimately show ?thesis using spec_percent_50_200 by blast
qed

lemma percent_ok_int:
  assumes "0 \<le> n" "n \<le> 100"
  shows "percent_ok (Fin (of_int n))"
  using assms by (simp add: percent_ok_def js_le_def)

lemma onUploadProgress_within_total:
  assumes "within_total ev"
  shows "percent_ok (progress (onUploadProgress ev s))"
proof -
  from assms obtain l t where lt: "loaded ev = Fin l" "total_ev ev = Fin t" "0 \<le> l" "l \<le> t" "0 < t"
    by (auto split: jsnum.splits)
  obtain n where "Math_round (js_mul (js_div (Fin l) (Fin t)) (Fin 100)) = Fin (of_int n)"
    "0 \<le> n" "n \<le> 100"
    using percent_in_range[OF lt(3-5)] by blast
  then show ?thesis
    using percent_ok_int[of n] by (simp add: onUploadProgress_def Let_def lt del: Math_round.simps)
qed

lemma percent_ok_0: "percent_ok (Fin 0)"
  using percent_ok_int[of 0] by simp

lemma handle_percent_ok:
  assumes "in_range e" "percent_ok (progress s)"
  shows "percent_ok (progress (fst (handle p e s)))"
proof (cases e)
  case UploadStart
  then show ?thesis by (simp add: onUploadStart_def percent_ok_0)
next
  case (UploadProgress ev)
  with assms(1) show ?thesis by (simp add: onUploadProgress_within_total del: within_total.simps)
next
  case (UploadSuccess res)
  with assms(2) show ?thesis by (simp add: onSuccess_progress)
next
  case (UploadError err)
  with assms(2) show ?thesis by (simp add: onError_def)
qed

lemma run_percent_ok:
  assumes "list_all in_range es" "percent_ok (progress s)"
  shows "percent_ok (progress (run p es s))"
  using assms
proof (induction es arbitrary: s)
  case Nil
  then show ?case by simp
next
  case (Cons e es)
  then show ?case by (simp add: handle_percent_ok)
qed

lemma round_double_3_2: "round_double (3 / 2) = Fin (3 / 2)"
  by (rule round_double_exact[of _ 0 "3 * 2 ^ 51"]) (simp_all add: power_int_def power_divide)

lemma round_double_150: "round_double 150 = Fin 150"
  by (rule round_double_exact[of _ 7 "150 * 2 ^ 45"]) (simp_all add: power_int_def power_divide)

lemma percent_3_2: "Math_round (js_mul (js_div (Fin 3) (Fin 2)) (Fin 100)) = Fin 150"
  using Math_round_int[of 150]
  by (simp add: js_mul_def js_div_def is_inf_def is_zero_def round_double_3_2 round_double_150
        del: Math_round.simps)

text \<open>
  C6, as stated, fails: nothing clamps the percentage, and a progress event with
  \<open>loaded = 3\<close>, \<open>total = 2\<close> stores 150.
\<close>

theorem progress_percent_counterexample:
  "\<not> percent_ok (progress (onUploadProgress \<lparr>loaded = Fin 3, total_ev = Fin 2\<rparr>
       (mount \<lparr>type = ImageKind, accept = ''image/*'', placeholder = ''Upload a cover'',
                folder = ''covers'', variant = Dark, value = None\<rparr>)))"
  by (simp add: onUploadProgress_def Let_def percent_3_2 percent_ok_def js_le_def
        del: Math_round.simps)

text \<open>
  C6, amended. \<open>progress\<close> is an integer in \<open>[0, 100]\<close> after the initial mount and after every
  sequence of start, progress, success and error events in which each progress event has
  finite numbers with \<open>0 \<le> loaded \<le> total\<close> and \<open>0 < total\<close>.
\<close>

theorem progress_percent_invariant:
  "list_all in_range es \<Longrightarrow> percent_ok (progress (run p es (mount p)))"
  by (rule run_percent_ok) (simp_all add: mount_def percent_ok_0)

theorem progress_percent_invariant_witness:
  "percent_ok (progress (run
      \<lparr>type = ImageKind, accept = ''image/*'', placeholder = ''Upload a cover'',
        folder = ''covers'', variant = Dark, value = None\<rparr>
      [UploadStart, UploadProgress \<lparr>loaded = Fin 1, total_ev = Fin 2\<rparr>,
       UploadProgress \<lparr>loaded = Fin 2, total_ev = Fin 2\<rparr>,
       UploadSuccess \<lparr>filePath = Some ''/img/abc.png''\<rparr>]
      (mount \<lparr>type = ImageKind, accept = ''image/*'', placeholder = ''Upload a cover'',
               folder = ''covers'', variant = Dark, value = None\<rparr>)))"
  using progress_percent_invariant[of
      "[UploadStart, UploadProgress \<lparr>loaded = Fin 1, total_ev = Fin 2\<rparr>,
       UploadProgress \<lparr>loaded = Fin 2, total_ev = Fin 2\<rparr>,
       UploadSuccess \<lparr>filePath = Some ''/img/abc.png''\<rparr>]"
      "\<lparr>type = ImageKind, accept = ''image/*'', placeholder = ''Upload a cover'',
        folder = ''covers'', variant = Dark, value = None\<rparr>"]
  by simp

lemma js_div_zero:
  assumes "is_zero t"
  shows "js_div l t =
           (if l = NaN \<or> is_zero l then NaN else mk_inf (sign_bit l \<noteq> sign_bit t))"
  using assms by (cases l) (auto simp: js_div_def is_zero_def is_inf_def)

lemma js_mul_inf_100: "js_mul (mk_inf b) (Fin 100) = mk_inf b"
  by (simp add: js_mul_def mk_inf_def is_inf_def is_zero_def)

lemma js_mul_NaN: "js_mul NaN y = NaN"
  by (simp add: js_mul_def)

lemma Math_round_mk_inf: "Math_round (mk_inf b) = mk_inf b"
  by (simp add: mk_inf_def)

lemma percent_zero_total:
  assumes "is_zero t"
  shows "Math_round (js_mul (js_div l t) (Fin 100)) =
           (if l = NaN \<or> is_zero l then NaN else mk_inf (sign_bit l \<noteq> sign_bit t))"
proof (cases "l = NaN \<or> is_zero l")
  case True
  then have "js_div l t = NaN" using js_div_zero[OF assms, of l] by simp
  with True show ?thesis by (simp add: js_mul_NaN)
next
  case False
  then have "js_div l t = mk_inf (sign_bit l \<noteq> sign_bit t)"
    using js_div_zero[OF assms, of l] by simp
  with False show ?thesis by (simp add: js_mul_inf_100 Math_round_mk_inf)
qed

lemma not_percent_ok: "\<not> percent_ok NaN" "\<not> percent_ok (mk_inf b)"
  by (simp_all add: percent_ok_def mk_inf_def)

text \<open>
  C10. A progress event whose \<open>total\<close> is zero is divided without a guard: the value stored
  in \<open>progress\<close> is \<open>NaN\<close> when \<open>loaded\<close> is zero or \<open>NaN\<close>, and an infinity otherwise; it is
  never an integer in \<open>[0, 100]\<close>.
\<close>

theorem onUploadProgress_zero_total:
  "is_zero (total_ev ev) \<Longrightarrow>
   progress (onUploadProgress ev s) =
     (if loaded ev = NaN \<or> is_zero (loaded ev) then NaN
      else mk_inf (sign_bit (loaded ev) \<noteq> sign_bit (total_ev ev)))
   \<and> progress (onUploadProgress ev s) \<in> {NaN, PInf, NInf}
   \<and> \<not> percent_ok (progress (onUploadProgress ev s))"
proof -
  assume z: "is_zero (total_ev ev)"
  have eq: "progress (onUploadProgress ev s) =
     (if loaded ev = NaN \<or> is_zero (loaded ev) then NaN
      else mk_inf (sign_bit (loaded ev) \<noteq> sign_bit (total_ev ev)))"
    by (simp add: onUploadProgress_def Let_def percent_zero_total[OF z] del: Math_round.simps)
  have "progress (onUploadProgress ev s) \<in> {NaN, PInf, NInf}"
    unfolding eq by (simp add: mk_inf_def)
  moreover have "\<not> percent_ok (progress (onUploadProgress ev s))"
    unfolding eq by (simp add: not_percent_ok)
  ultimately show ?thesis using eq by blast
qed

theorem onUploadProgress_zero_total_witness:
  "progress (onUploadProgress \<lparr>loaded = Fin 1024, total_ev = Fin 0\<rparr>
      \<lparr>file = \<lparr>filePath = None\<rparr>, progress = Fin 0\<rparr>) = PInf
   \<and> progress (onUploadProgress \<lparr>loaded = Fin 0, total_ev = Fin 0\<rparr>
      \<lparr>file = \<lparr>filePath = None\<rparr>, progress = Fin 0\<rparr>) = NaN"
  using onUploadProgress_zero_total[of "\<lparr>loaded = Fin 1024, total_ev = Fin 0\<rparr>"
          "\<lparr>file = \<lparr>filePath = None\<rparr>, progress = Fin 0\<rparr>"]
        onUploadProgress_zero_total[of "\<lparr>loaded = Fin 0, total_ev = Fin 0\<rparr>"
          "\<lparr>file = \<lparr>filePath = None\<rparr>, progress = Fin 0\<rparr>"]
  by (simp add: is_zero_def mk_inf_def)



section \<open>The progress indicator\<close>

lemma progress_bar_eq:
  "progress_bar (FileUpload_view p s) =
     (if js_gt (progress s) (Fin 0) \<and> \<not> js_strict_eq (progress s) (Fin 100)
      then Some (progress s) else None)"
  by (simp add: FileUpload_view_def)

lemma shown_le_100:
  assumes "\<not> js_gt x (Fin 100)"
  shows "(js_gt x (Fin 0) \<and> \<not> js_strict_eq x (Fin 100)) = (js_lt (Fin 0) x \<and> js_lt x (Fin 100))"
  using assms by (cases x) (auto simp: js_gt_def js_strict_eq_def is_zero_def)

lemma shown_gt_100:
  assumes "js_gt x (Fin 100)"
  shows "js_gt x (Fin 0) \<and> \<not> js_strict_eq x (Fin 100)"
  using assms by (cases x) (auto simp: js_gt_def js_strict_eq_def is_zero_def)

lemma percent_complete:
  assumes "q \<noteq> 0"
  shows "Math_round (js_mul (js_div (Fin q) (Fin q)) (Fin 100)) = Fin 100"
  using assms Math_round_int[of 100]
  by (simp add: js_div_def js_mul_def is_inf_def is_zero_def round_double_1 round_double_100
        del: Math_round.simps)

lemma round_double_5_4: "round_double (5 / 4) = Fin (5 / 4)"
  by (rule round_double_exact[of _ 0 "5 * 2 ^ 50"]) (simp_all add: power_int_def power_divide)

lemma round_double_125: "round_double 125 = Fin 125"
  by (rule round_double_exact[of _ 6 "125 * 2 ^ 46"]) (simp_all add: power_int_def power_divide)

lemma percent_5_4: "Math_round (js_mul (js_div (Fin 5) (Fin 4)) (Fin 100)) = Fin 125"
  using Math_round_int[of 125]
  by (simp add: js_mul_def js_div_def is_inf_def is_zero_def round_double_5_4 round_double_125
        del: Math_round.simps)

text \<open>
  C9, as stated, fails: the indicator is hidden at 100 only, not from 100 on. The progress
  event \<open>loaded = 5\<close>, \<open>total = 4\<close> stores 125, which is not below 100, and the indicator is
  displayed, printing 125.
\<close>

theorem progress_bar_counterexample:
  "progress_bar (FileUpload_view
      \<lparr>type = ImageKind, accept = ''image/*'', placeholder = ''Upload a cover'',
        folder = ''covers'', variant = Dark, value = None\<rparr>
      (onUploadProgress \<lparr>loaded = Fin 5, total_ev = Fin 4\<rparr>
        (mount \<lparr>type = ImageKind, accept = ''image/*'', placeholder = ''Upload a cover'',
        folder = ''covers'', variant = Dark, value = None\<rparr>))) = Some (Fin 125)
   \<and> \<not> (js_lt (Fin 0) (Fin 125) \<and> js_lt (Fin 125) (Fin 100))"
  by (simp add: progress_bar_eq onUploadProgress_def Let_def percent_5_4 js_strict_eq_def
        is_zero_def del: Math_round.simps)

text \<open>
  C9, amended. The progress indicator is displayed if and only if \<open>progress > 0\<close> and
  \<open>progress !== 100\<close>. For every value that is not above 100 this is \<open>0 < progress < 100\<close>;
  every value above 100 is displayed. The indicator is hidden at exactly 100, which is what
  a progress event with \<open>loaded = total\<close> (finite, not zero) stores, and hidden at 0.
\<close>

theorem progress_bar_shown:
  "(progress_bar (FileUpload_view p s) \<noteq> None)
     = (js_gt (progress s) (Fin 0) \<and> \<not> js_strict_eq (progress s) (Fin 100))
   \<and> (\<not> js_gt (progress s) (Fin 100) \<longrightarrow>
      (progress_bar (FileUpload_view p s) \<noteq> None)
        = (js_lt (Fin 0) (progress s) \<and> js_lt (progress s) (Fin 100)))
   \<and> (js_gt (progress s) (Fin 100) \<longrightarrow>
      progress_bar (FileUpload_view p s) = Some (progress s))
   \<and> (progress s = Fin 100 \<or> is_zero (progress s) \<longrightarrow>
      progress_bar (FileUpload_view p s) = None)
   \<and> (q \<noteq> 0 \<longrightarrow>
      progress (onUploadProgress \<lparr>loaded = Fin q, total_ev = Fin q\<rparr> s) = Fin 100
      \<and> progress_bar (FileUpload_view p (onUploadProgress \<lparr>loaded = Fin q, total_ev = Fin q\<rparr> s))
          = None)"
proof (intro conjI impI)
  show "(progress_bar (FileUpload_view p s) \<noteq> None)
     = (js_gt (progress s) (Fin 0) \<and> \<not> js_strict_eq (progress s) (Fin 100))"
    by (simp add: progress_bar_eq)
next
  assume "\<not> js_gt (progress s) (Fin 100)"
  then show "(progress_bar (FileUpload_view p s) \<noteq> None)
        = (js_lt (Fin 0) (progress s) \<and> js_lt (progress s) (Fin 100))"
    using shown_le_100[of "progress s"] by (simp add: progress_bar_eq)
next
  assume "js_gt (progress s) (Fin 100)"
  then show "progress_bar (FileUpload_view p s) = Some (progress s)"
    using shown_gt_100[of "progress s"] by (simp add: progress_bar_eq)
next
  assume "progress s = Fin 100 \<or> is_zero (progress s)"
  then show "progress_bar (FileUpload_view p s) = None"
    by (auto simp: progress_bar_eq js_strict_eq_def js_gt_def is_zero_def)
next
  assume q: "q \<noteq> 0"
  then show c: "progress (onUploadProgress \<lparr>loaded = Fin q, total_ev = Fin q\<rparr> s) = Fin 100"
    by (simp add: onUploadProgress_def Let_def percent_complete del: Math_round.simps)
  show "progress_bar (FileUpload_view p (onUploadProgress \<lparr>loaded = Fin q, total_ev = Fin q\<rparr> s))
          = None"
    by (simp add: progress_bar_eq c js_strict_eq_def)
qed

theorem progress_bar_shown_witness:
  "progress_bar (FileUpload_view
      \<lparr>type = ImageKind, accept = ''image/*'', placeholder = ''Upload a cover'',
        folder = ''covers'', variant = Dark, value = None\<rparr>
      \<lparr>file = \<lparr>filePath = None\<rparr>, progress = Fin 25\<rparr>) \<noteq> None
   \<and> progress_bar (FileUpload_view
      \<lparr>type = ImageKind, accept = ''image/*'', placeholder = ''Upload a cover'',
        folder = ''covers'', variant = Dark, value = None\<rparr>
      \<lparr>file = \<lparr>filePath = None\<rparr>, progress = Fin 125\<rparr>) = Some (Fin 125)
   \<and> progress_bar (FileUpload_view
      \<lparr>type = ImageKind, accept = ''image/*'', placeholder = ''Upload a cover'',
        folder = ''covers'', variant = Dark, value = None\<rparr>
      \<lparr>file = \<lparr>filePath = None\<rparr>, progress = Fin 100\<rparr>) = None
   \<and> progress_bar (FileUpload_view
      \<lparr>type = ImageKind, accept = ''image/*'', placeholder = ''Upload a cover'',
        folder = ''covers'', variant = Dark, value = None\<rparr>
      (onUploadProgress \<lparr>loaded = Fin 200, total_ev = Fin 200\<rparr>
         \<lparr>file = \<lparr>filePath = None\<rparr>, progress = Fin 25\<rparr>)) = None"
  using progress_bar_shown[of
      "\<lparr>type = ImageKind, accept = ''image/*'', placeholder = ''Upload a cover'',
        folder = ''covers'', variant = Dark, value = None\<rparr>"
      "\<lparr>file = \<lparr>filePath = None\<rparr>, progress = Fin 25\<rparr>" 200]
    progress_bar_shown[of
      "\<lparr>type = ImageKind, accept = ''image/*'', placeholder = ''Upload a cover'',
        folder = ''covers'', variant = Dark, value = None\<rparr>"
      "\<lparr>file = \<lparr>filePath = None\<rparr>, progress = Fin 125\<rparr>" 200]
    progress_bar_shown[of
      "\<lparr>type = ImageKind, accept = ''image/*'', placeholder = ''Upload a cover'',
        folder = ''covers'', variant = Dark, value = None\<rparr>"
      "\<lparr>file = \<lparr>filePath = None\<rparr>, progress = Fin 100\<rparr>" 200]
  by (simp add: js_gt_def js_strict_eq_def is_zero_def)

end
